theory Spec2Isabelle
  imports Complex_Main "HOL-Library.AList"
begin

section \<open>Data model (src/lib/db.ts)\<close>

text \<open>
  A \<open>Confirmation\<close> is one ledger entry. The source stores the timestamp as the ISO string
  produced by \<open>new Date().toISOString()\<close> and reads it back with
  \<open>new Date(c.timestamp).getTime()\<close>; both have millisecond precision, so the field is
  modelled as the epoch-millisecond instant the string denotes.
\<close>

record Confirmation =
  deviceId :: string
  timestamp :: int

datatype SyncStatus = synced | pending | conflict

text \<open>
  The \<open>Report\<close> interface. The primary key \<open>id\<close> is called \<open>reportId\<close> (\<open>id\<close> is the
  identity function of HOL). Fields declared optional in the interface (\<open>?:\<close>) are options,
  \<open>None\<close> standing for \<open>undefined\<close>. The two ledgers are lists; wherever the source reads
  them it guards with \<open>?.\<close> and \<open>|| []\<close>, so a missing ledger behaves as the empty list.
\<close>

record Report =
  reportId :: string
  lat :: real
  lng :: real
  desc :: string
  photoBase64 :: "string option"
  photoUrl :: "string option"
  date :: string
  clearedCount :: nat
  resolved :: bool
  stillThereCount :: nat
  stillThereConfirmations :: "Confirmation list"
  clearedConfirmations :: "Confirmation list"
  syncStatus :: SyncStatus
  lastModified :: int
  firebaseId :: "string option"
  archived :: "bool option"
  archivedAt :: "int option"
  flagged :: "bool option"
  noGlassFound :: "bool option"

text \<open>
  The object literals handed to \<open>db.reports.update\<close> (\<open>Partial<Report>\<close>) are lists of
  property assignments, applied from left to right, so that in a spread
  \<open>{...updates, lastModified: .., syncStatus: ..}\<close> the later property wins. The primary
  key is not assignable.
\<close>

datatype change =
    Lat real
  | Lng real
  | Desc string
  | PhotoBase64 "string option"
  | PhotoUrl "string option"
  | Date string
  | ClearedCount nat
  | Resolved bool
  | StillThereCount nat
  | StillThereConfirmations "Confirmation list"
  | ClearedConfirmations "Confirmation list"
  | SyncStatusIs SyncStatus
  | LastModified int
  | FirebaseId "string option"
  | Archived "bool option"
  | ArchivedAt "int option"
  | Flagged "bool option"
  | NoGlassFound "bool option"

fun applyChange :: "change \<Rightarrow> Report \<Rightarrow> Report" where
  "applyChange (Lat v) r = r\<lparr>lat := v\<rparr>"
| "applyChange (Lng v) r = r\<lparr>lng := v\<rparr>"
| "applyChange (Desc v) r = r\<lparr>desc := v\<rparr>"
| "applyChange (PhotoBase64 v) r = r\<lparr>photoBase64 := v\<rparr>"
| "applyChange (PhotoUrl v) r = r\<lparr>photoUrl := v\<rparr>"
| "applyChange (Date v) r = r\<lparr>date := v\<rparr>"
| "applyChange (ClearedCount v) r = r\<lparr>clearedCount := v\<rparr>"
| "applyChange (Resolved v) r = r\<lparr>resolved := v\<rparr>"
| "applyChange (StillThereCount v) r = r\<lparr>stillThereCount := v\<rparr>"
| "applyChange (StillThereConfirmations v) r = r\<lparr>stillThereConfirmations := v\<rparr>"
| "applyChange (ClearedConfirmations v) r = r\<lparr>clearedConfirmations := v\<rparr>"
| "applyChange (SyncStatusIs v) r = r\<lparr>syncStatus := v\<rparr>"
| "applyChange (LastModified v) r = r\<lparr>lastModified := v\<rparr>"
| "applyChange (FirebaseId v) r = r\<lparr>firebaseId := v\<rparr>"
| "applyChange (Archived v) r = r\<lparr>archived := v\<rparr>"
| "applyChange (ArchivedAt v) r = r\<lparr>archivedAt := v\<rparr>"
| "applyChange (Flagged v) r = r\<lparr>flagged := v\<rparr>"
| "applyChange (NoGlassFound v) r = r\<lparr>noGlassFound := v\<rparr>"

definition applyChanges :: "change list \<Rightarrow> Report \<Rightarrow> Report" where
  "applyChanges cs r = fold applyChange cs r"

subsection \<open>The \<open>reports\<close> table\<close>

text \<open>
  \<open>db.reports\<close> is a table of rows keyed by \<open>id\<close>; \<open>toArray()\<close> is the list of rows.
  \<open>get\<close> returns the row stored under a key, \<open>update\<close> applies the changes to the row
  stored under the key and does nothing when there is none, \<open>bulkUpdate\<close> does so for
  each \<open>{key, changes}\<close> entry in turn. The number of modified rows that \<open>update\<close>
  reports is used by no caller and is left out. Every operation below takes the table and
  the clock reading \<open>now\<close> (\<open>Date.now()\<close>, epoch milliseconds; the readings taken
  within one call are one instant) and returns the new table next to its result.
\<close>

type_synonym table = "Report list"

definition reports_get :: "table \<Rightarrow> string \<Rightarrow> Report option" where
  "reports_get t k = find (\<lambda>r. reportId r = k) t"

definition reports_update :: "table \<Rightarrow> string \<Rightarrow> change list \<Rightarrow> table" where
  "reports_update t k cs = map (\<lambda>r. if reportId r = k then applyChanges cs r else r) t"

definition reports_bulkUpdate :: "table \<Rightarrow> (string \<times> change list) list \<Rightarrow> table" where
  "reports_bulkUpdate t kcs = fold (\<lambda>(k, cs) t'. reports_update t' k cs) kcs t"

subsection \<open>Operations of db.ts\<close>


definition hasDeviceConfirmedCleared :: "Report \<Rightarrow> string \<Rightarrow> bool" where
  "hasDeviceConfirmedCleared report d =
     list_ex (\<lambda>c. deviceId c = d) (clearedConfirmations report)"

definition hasDeviceConfirmedStillThereRecently :: "int \<Rightarrow> Report \<Rightarrow> string \<Rightarrow> bool" where
  "hasDeviceConfirmedStillThereRecently now report d =
     (let oneDayAgo = now - (24 * 60 * 60 * 1000)
      in list_ex (\<lambda>c. deviceId c = d \<and> timestamp c > oneDayAgo)
           (stillThereConfirmations report))"

record VoteResult =
  success :: bool
  alreadyConfirmed :: bool

definition incrementClearedCount ::
  "table \<Rightarrow> int \<Rightarrow> string \<Rightarrow> string \<Rightarrow> VoteResult \<times> table" where
  "incrementClearedCount t now k d =
     (case reports_get t k of
        None \<Rightarrow> (\<lparr>success = False, alreadyConfirmed = False\<rparr>, t)
      | Some report \<Rightarrow>
          if hasDeviceConfirmedCleared report d
          then (\<lparr>success = False, alreadyConfirmed = True\<rparr>, t)
          else
            let newConfirmations =
                  clearedConfirmations report @ [\<lparr>deviceId = d, timestamp = now\<rparr>];
                newCount = length newConfirmations
            in (\<lparr>success = True, alreadyConfirmed = False\<rparr>,
                reports_update t k
                  [ClearedCount newCount,
                   ClearedConfirmations newConfirmations,
                   Resolved (newCount \<ge> 3),
                   LastModified now,
                   SyncStatusIs pending]))"

definition incrementStillThereCount ::
  "table \<Rightarrow> int \<Rightarrow> string \<Rightarrow> string \<Rightarrow> VoteResult \<times> table" where
  "incrementStillThereCount t now k d =
     (case reports_get t k of
        None \<Rightarrow> (\<lparr>success = False, alreadyConfirmed = False\<rparr>, t)
      | Some report \<Rightarrow>
          if hasDeviceConfirmedStillThereRecently now report d
          then (\<lparr>success = False, alreadyConfirmed = True\<rparr>, t)
          else
            let newConfirmations =
                  stillThereConfirmations report @ [\<lparr>deviceId = d, timestamp = now\<rparr>];
                newStillThereCount = length newConfirmations;
                shouldResetCleared = (newStillThereCount \<ge> 2)
            in (\<lparr>success = True, alreadyConfirmed = False\<rparr>,
                reports_update t k
                  [StillThereCount newStillThereCount,
                   StillThereConfirmations newConfirmations,
                   ClearedCount (if shouldResetCleared then 0 else clearedCount report),
                   ClearedConfirmations
                     (if shouldResetCleared then [] else clearedConfirmations report),
                   Resolved False,
                   LastModified now,
                   SyncStatusIs pending]))"


definition bulkMarkResolved :: "table \<Rightarrow> int \<Rightarrow> string list \<Rightarrow> table" where
  "bulkMarkResolved t now ids =
     reports_bulkUpdate t
       (map (\<lambda>k. (k, [Resolved True, LastModified now, SyncStatusIs pending])) ids)"


definition getActiveReports :: "table \<Rightarrow> Report list" where
  "getActiveReports t = filter (\<lambda>r. archived r \<noteq> Some True) t"

definition archiveReport :: "table \<Rightarrow> int \<Rightarrow> string \<Rightarrow> table" where
  "archiveReport t now k =
     reports_update t k
       [Archived (Some True), ArchivedAt (Some now), LastModified now, SyncStatusIs pending]"




definition autoArchiveOldResolvedReports :: "table \<Rightarrow> int \<Rightarrow> nat \<times> table" where
  "autoArchiveOldResolvedReports t now =
     (let sevenDaysAgo = now - (7 * 24 * 60 * 60 * 1000);
          toArchive = filter (\<lambda>r. resolved r \<and> archived r \<noteq> Some True
                                   \<and> lastModified r < sevenDaysAgo) t
      in (length toArchive,
          fold (\<lambda>report t'. archiveReport t' now (reportId report)) toArchive t))"

section \<open>Merging local and remote reports (sync engine)\<close>

text \<open>
  \<open>mergeReports\<close> builds a JavaScript \<open>Map\<close> from id to report. A \<open>Map\<close> iterates in
  insertion order and \<open>set\<close> on a key that is present replaces the value in place, which
  is \<open>AList.update\<close> on an association list; \<open>get\<close> is \<open>map_of\<close>. \<open>lastModified || 0\<close>
  is the identity on an integer timestamp. \<open>mergeRemote\<close> is the body of the second loop.
\<close>

definition mergeRemote :: "Report \<Rightarrow> (string \<times> Report) list \<Rightarrow> (string \<times> Report) list" where
  "mergeRemote remoteReport merged =
     (case map_of merged (reportId remoteReport) of
        None \<Rightarrow> AList.update (reportId remoteReport) remoteReport merged
      | Some localReport \<Rightarrow>
          let localTime = lastModified localReport;
              remoteTime = lastModified remoteReport
          in if remoteTime > localTime
             then AList.update (reportId remoteReport)
                    (remoteReport\<lparr>syncStatus := synced\<rparr>) merged
             else if localTime > remoteTime \<and> syncStatus localReport = pending
             then AList.update (reportId remoteReport) localReport merged
             else merged)"

definition mergeReports :: "Report list \<Rightarrow> Report list \<Rightarrow> Report list" where
  "mergeReports localReports remoteReports =
     map snd
       (fold mergeRemote remoteReports
          (fold (\<lambda>report merged. AList.update (reportId report) report merged)
                localReports []))"

section \<open>Proximity detector (useProximityAlerts)\<close>

definition ENTRY_RADIUS_METERS :: real where "ENTRY_RADIUS_METERS = 3"
definition EXIT_RADIUS_METERS :: real where "EXIT_RADIUS_METERS = 6"
definition DEBOUNCE_MS :: int where "DEBOUNCE_MS = 1000"

record ProximityAlertState =
  isInProximity :: bool
  nearbyReportIds :: "string list"
  userLocation :: "(real \<times> real) option"

text \<open>
  The hook's mutable cells: the three refs \<open>lastCheckRef\<close>, \<open>previouslyInProximityRef\<close>,
  \<open>hasTriggeredAlertRef\<close> and the React state. The latch \<open>hasTriggeredAlert\<close> is the
  state of the machine: \<open>False\<close> is Idle, \<open>True\<close> is Alerting.
\<close>

record Proximity =
  lastCheck :: int
  previouslyInProximity :: "string set"
  hasTriggeredAlert :: bool
  alertState :: ProximityAlertState

definition initialProximity :: Proximity where
  "initialProximity =
     \<lparr>lastCheck = 0, previouslyInProximity = {}, hasTriggeredAlert = False,
      alertState = \<lparr>isInProximity = False, nearbyReportIds = [], userLocation = None\<rparr>\<rparr>"

text \<open>The callbacks a fix may invoke, in the order it invokes them.\<close>

datatype AlertEvent = AlertTriggered "string list" | AlertCleared

text \<open>
  The \<open>for\<close> loop over the active reports, with its two accumulators \<open>nearbyIds\<close> and
  \<open>currentlyInProximity\<close>. \<open>calculateDistance\<close> lives in \<open>./utils\<close>, which is not part
  of the sources at hand; it is a parameter, returning metres.
\<close>

fun scanReports ::
  "(real \<Rightarrow> real \<Rightarrow> real \<Rightarrow> real \<Rightarrow> real) \<Rightarrow> string list \<Rightarrow> string set \<Rightarrow> real \<Rightarrow> real
    \<Rightarrow> Report list \<Rightarrow> string list \<times> string set \<Rightarrow> string list \<times> string set" where
  "scanReports calculateDistance suppressed prev latitude longitude [] acc = acc"
| "scanReports calculateDistance suppressed prev latitude longitude (report # rest)
     (nearbyIds, currentlyInProximity) =
     (if reportId report \<in> set suppressed
      then scanReports calculateDistance suppressed prev latitude longitude rest
             (nearbyIds, currentlyInProximity)
      else
        let distance = calculateDistance latitude longitude (lat report) (lng report)
        in if distance \<le> ENTRY_RADIUS_METERS
           then scanReports calculateDistance suppressed prev latitude longitude rest
                  (nearbyIds @ [reportId report], insert (reportId report) currentlyInProximity)
           else if distance \<le> EXIT_RADIUS_METERS \<and> reportId report \<in> prev
           then scanReports calculateDistance suppressed prev latitude longitude rest
                  (nearbyIds @ [reportId report], insert (reportId report) currentlyInProximity)
           else scanReports calculateDistance suppressed prev latitude longitude rest
                  (nearbyIds, currentlyInProximity))"

definition checkProximity ::
  "(real \<Rightarrow> real \<Rightarrow> real \<Rightarrow> real \<Rightarrow> real) \<Rightarrow> Report list \<Rightarrow> string list
    \<Rightarrow> Proximity \<Rightarrow> int \<Rightarrow> real \<times> real \<Rightarrow> Proximity \<times> AlertEvent list" where
  "checkProximity calculateDistance reports suppressedReportIds h now position =
     (if now - lastCheck h < DEBOUNCE_MS then (h, [])
      else
        let latitude = fst position;
            longitude = snd position;
            activeReports = filter (\<lambda>r. \<not> resolved r \<and> archived r \<noteq> Some True) reports;
            scanned = scanReports calculateDistance suppressedReportIds
                        (previouslyInProximity h) latitude longitude activeReports ([], {});
            nearbyIds = fst scanned;
            currentlyInProximity = snd scanned;
            newlyEntered = filter (\<lambda>i. i \<notin> previouslyInProximity h) nearbyIds;
            justExited = (length nearbyIds = 0 \<and> previouslyInProximity h \<noteq> {});
            trigger = (length newlyEntered > 0 \<and> \<not> hasTriggeredAlert h);
            latch1 = (if trigger then True else hasTriggeredAlert h);
            latch2 = (if justExited then False else latch1)
        in (\<lparr>lastCheck = now,
             previouslyInProximity = currentlyInProximity,
             hasTriggeredAlert = latch2,
             alertState = \<lparr>isInProximity = (length nearbyIds > 0),
                           nearbyReportIds = nearbyIds,
                           userLocation = Some (latitude, longitude)\<rparr>\<rparr>,
            (if trigger then [AlertTriggered nearbyIds] else [])
              @ (if justExited then [AlertCleared] else [])))"

section \<open>Sequences of calls\<close>

text \<open>A run of \<open>castCleared\<close> calls on one report, each with its clock reading and device.\<close>

definition castClearedSeq :: "table \<Rightarrow> string \<Rightarrow> (int \<times> string) list \<Rightarrow> table" where
  "castClearedSeq t k calls =
     fold (\<lambda>(now, d) t'. snd (incrementClearedCount t' now k d)) calls t"

text \<open>A run of \<open>castCleared\<close> calls by one device at the clock readings \<open>nows\<close>.\<close>

definition repeatCleared :: "table \<Rightarrow> string \<Rightarrow> string \<Rightarrow> int list \<Rightarrow> table" where
  "repeatCleared t k d nows = fold (\<lambda>now t'. snd (incrementClearedCount t' now k d)) nows t"

section \<open>Derived predicates used in the statements\<close>


text \<open>Looking a record up by id in a list of reports.\<close>

definition findById :: "Report list \<Rightarrow> string \<Rightarrow> Report option" where
  "findById xs k = find (\<lambda>r. reportId r = k) xs"

text \<open>Every entry of the \<open>Map\<close> is stored under the id of its report.\<close>

definition keyed :: "(string \<times> Report) list \<Rightarrow> bool" where
  "keyed m = (\<forall>(k, v)\<in>set m. reportId v = k)"

text \<open>
  The in-range test of one report at one fix: within the entry radius, or in range at the
  previous fix and within the exit radius.
\<close>

definition inRange ::
  "(real \<Rightarrow> real \<Rightarrow> real \<Rightarrow> real \<Rightarrow> real) \<Rightarrow> string set \<Rightarrow> real \<times> real \<Rightarrow> Report \<Rightarrow> bool" where
  "inRange calculateDistance prev position r =
     (calculateDistance (fst position) (snd position) (lat r) (lng r) \<le> 3
      \<or> (reportId r \<in> prev
          \<and> calculateDistance (fst position) (snd position) (lat r) (lng r) \<le> 6))"

section \<open>Example data\<close>

text \<open>A freshly added report, as \<open>addReport\<close> stores it, used in the worked examples.\<close>

definition freshReport :: Report where
  "freshReport =
     \<lparr>reportId = ''r1'', lat = 0, lng = 0, desc = ''glass'', photoBase64 = None,
      photoUrl = None, date = ''2024-01-01'', clearedCount = 0, resolved = False,
      stillThereCount = 0, stillThereConfirmations = [], clearedConfirmations = [],
      syncStatus = pending, lastModified = 0, firebaseId = None, archived = None,
      archivedAt = None, flagged = None, noGlassFound = None\<rparr>"

text \<open>The same report after device \<open>a\<close> has cast a cleared vote at time 5.\<close>

definition votedReport :: Report where
  "votedReport =
     freshReport\<lparr>clearedCount := 1,
                 clearedConfirmations := [\<lparr>deviceId = ''a'', timestamp = 5\<rparr>],
                 lastModified := 5\<rparr>"

text \<open>A report resolved by the cleared votes of the devices \<open>a\<close>, \<open>b\<close> and \<open>c\<close>.\<close>

definition resolvedReport :: Report where
  "resolvedReport =
     freshReport\<lparr>clearedCount := 3,
                 clearedConfirmations :=
                   [\<lparr>deviceId = ''a'', timestamp = 10\<rparr>,
                    \<lparr>deviceId = ''b'', timestamp = 20\<rparr>,
                    \<lparr>deviceId = ''c'', timestamp = 30\<rparr>],
                 resolved := True,
                 lastModified := 30\<rparr>"

text \<open>A report on which device \<open>a\<close> has cast a still-there vote at time 1000.\<close>

definition stillThereReport :: Report where
  "stillThereReport =
     freshReport\<lparr>stillThereCount := 1,
                 stillThereConfirmations := [\<lparr>deviceId = ''a'', timestamp = 1000\<rparr>],
                 lastModified := 1000\<rparr>"

text \<open>
  Two resolved reports for the archive sweep run at \<open>now = 691200000\<close> (8 days after
  time 0): one last modified 8 days before, one 6 days before.
\<close>

definition eightDayOld :: Report where
  "eightDayOld = freshReport\<lparr>reportId := ''r8'', resolved := True, lastModified := 0\<rparr>"

definition sixDayOld :: Report where
  "sixDayOld = freshReport\<lparr>reportId := ''r6'', resolved := True, lastModified := 172800000\<rparr>"

text \<open>
  Records for the merge: under \<open>r1\<close> the local copy is older than the remote one, under
  \<open>r2\<close> it is newer and pending, \<open>r3\<close> exists only remotely.
\<close>

definition localOlder :: Report where
  "localOlder = freshReport\<lparr>lastModified := 100\<rparr>"

definition remoteNewer :: Report where
  "remoteNewer = freshReport\<lparr>desc := ''glass, swept'', syncStatus := synced,
                              lastModified := 200, firebaseId := Some ''r1''\<rparr>"

definition localNewer :: Report where
  "localNewer = freshReport\<lparr>reportId := ''r2'', lastModified := 300\<rparr>"

definition remoteOlder :: Report where
  "remoteOlder = freshReport\<lparr>reportId := ''r2'', desc := ''glass, swept'', syncStatus := synced,
                              lastModified := 200, firebaseId := Some ''r2''\<rparr>"

definition remoteOnly :: Report where
  "remoteOnly = freshReport\<lparr>reportId := ''r3'', syncStatus := synced, lastModified := 50,
                             firebaseId := Some ''r3''\<rparr>"

text \<open>
  A stand-in for \<open>calculateDistance\<close> in the worked example of the detector: coordinates
  read as metres on a grid, distance along the grid lines.
\<close>

definition stubDistance :: "real \<Rightarrow> real \<Rightarrow> real \<Rightarrow> real \<Rightarrow> real" where
  "stubDistance latitude longitude lat2 lng2 = \<bar>latitude - lat2\<bar> + \<bar>longitude - lng2\<bar>"

section \<open>Basic facts about the table\<close>

lemma applyChange_reportId: "reportId (applyChange c r) = reportId r"
  by (cases c) simp_all

lemma applyChanges_reportId: "reportId (applyChanges cs r) = reportId r"
  unfolding applyChanges_def
  by (induction cs arbitrary: r) (simp_all add: applyChange_reportId)

lemma reports_get_update_same:
  "reports_get (reports_update t k cs) k = map_option (applyChanges cs) (reports_get t k)"
  unfolding reports_get_def reports_update_def
  by (induction t) (simp_all add: applyChanges_reportId)

lemma reports_get_update_other:
  "k' \<noteq> k \<Longrightarrow> reports_get (reports_update t k cs) k' = reports_get t k'"
  unfolding reports_get_def reports_update_def
  by (induction t) (simp_all add: applyChanges_reportId)

lemma reports_get_Some_reportId: "reports_get t k = Some r \<Longrightarrow> reportId r = k"
  unfolding reports_get_def by (induction t) (auto split: if_splits)

section \<open>Voting: what a single cast does\<close>

lemma incrementClearedCount_fresh:
  assumes "reports_get t k = Some r" and "d \<notin> deviceId ` set (clearedConfirmations r)"
  shows "fst (incrementClearedCount t now k d) = \<lparr>success = True, alreadyConfirmed = False\<rparr>"
    and "reports_get (snd (incrementClearedCount t now k d)) k =
           Some (r\<lparr>clearedCount := Suc (length (clearedConfirmations r)),
                   clearedConfirmations :=
                     clearedConfirmations r @ [\<lparr>deviceId = d, timestamp = now\<rparr>],
                   resolved := (2 \<le> length (clearedConfirmations r)),
                   lastModified := now,
                   syncStatus := pending\<rparr>)"
proof -
  from assms(2) have n: "\<not> hasDeviceConfirmedCleared r d"
    by (auto simp: hasDeviceConfirmedCleared_def list_ex_iff)
  show "fst (incrementClearedCount t now k d) = \<lparr>success = True, alreadyConfirmed = False\<rparr>"
    using assms(1) n by (simp add: incrementClearedCount_def Let_def)
  have "3 \<le> Suc (length (clearedConfirmations r)) \<longleftrightarrow> 2 \<le> length (clearedConfirmations r)"
    by arith
  then show "reports_get (snd (incrementClearedCount t now k d)) k =
           Some (r\<lparr>clearedCount := Suc (length (clearedConfirmations r)),
                   clearedConfirmations :=
                     clearedConfirmations r @ [\<lparr>deviceId = d, timestamp = now\<rparr>],
                   resolved := (2 \<le> length (clearedConfirmations r)),
                   lastModified := now,
                   syncStatus := pending\<rparr>)"
    using assms(1) n
    by (simp add: incrementClearedCount_def Let_def reports_get_update_same applyChanges_def)
qed

lemma castClearedSeq_ledger:
  assumes "reports_get t k = Some r"
    and "distinct (map snd calls)"
    and "set (map snd calls) \<inter> deviceId ` set (clearedConfirmations r) = {}"
  shows "\<exists>r'. reports_get (castClearedSeq t k calls) k = Some r'
            \<and> map deviceId (clearedConfirmations r')
                = map deviceId (clearedConfirmations r) @ map snd calls
            \<and> clearedCount r' = (if calls = [] then clearedCount r else length (clearedConfirmations r'))
            \<and> resolved r' = (if calls = [] then resolved r
                              else 3 \<le> length (clearedConfirmations r'))"
  using assms
proof (induction calls arbitrary: t r)
  case Nil
  then show ?case by (simp add: castClearedSeq_def)
next
  case (Cons c calls)
  obtain now d where c: "c = (now, d)" by (cases c)
  let ?t1 = "snd (incrementClearedCount t now k d)"
  let ?r1 = "r\<lparr>clearedCount := Suc (length (clearedConfirmations r)),
                   clearedConfirmations :=
                     clearedConfirmations r @ [\<lparr>deviceId = d, timestamp = now\<rparr>],
                   resolved := (2 \<le> length (clearedConfirmations r)),
                   lastModified := now,
                   syncStatus := pending\<rparr>"
  from Cons.prems c have fresh: "d \<notin> deviceId ` set (clearedConfirmations r)" by auto
  have g1: "reports_get ?t1 k = Some ?r1"
    by (rule incrementClearedCount_fresh(2)[OF Cons.prems(1) fresh])
  have d1: "distinct (map snd calls)" using Cons.prems(2) by simp
  have i1: "set (map snd calls) \<inter> deviceId ` set (clearedConfirmations ?r1) = {}"
    using Cons.prems(2,3) c by auto
  from Cons.IH[OF g1 d1 i1] obtain r' where
    r': "reports_get (castClearedSeq ?t1 k calls) k = Some r'"
        "map deviceId (clearedConfirmations r')
                = map deviceId (clearedConfirmations ?r1) @ map snd calls"
        "clearedCount r' = (if calls = [] then clearedCount ?r1 else length (clearedConfirmations r'))"
        "resolved r' = (if calls = [] then resolved ?r1
                              else 3 \<le> length (clearedConfirmations r'))"
    by blast
  have seq: "castClearedSeq t k (c # calls) = castClearedSeq ?t1 k calls"
    by (simp add: castClearedSeq_def c)
  have len: "length (clearedConfirmations r') = Suc (length (clearedConfirmations r)) + length calls"
    using arg_cong[OF r'(2), of length] by simp
  show ?case
    unfolding seq using r' len by (auto simp: c)
qed

lemma recently_iff:
  "hasDeviceConfirmedStillThereRecently now r d \<longleftrightarrow>
     (\<exists>c\<in>set (stillThereConfirmations r). deviceId c = d \<and> now - timestamp c < 24 * 60 * 60 * 1000)"
  by (auto simp: hasDeviceConfirmedStillThereRecently_def Let_def list_ex_iff)

lemma incrementStillThereCount_blocked:
  assumes "reports_get t k = Some r" and "hasDeviceConfirmedStillThereRecently now r d"
  shows "incrementStillThereCount t now k d = (\<lparr>success = False, alreadyConfirmed = True\<rparr>, t)"
  using assms by (simp add: incrementStillThereCount_def)

lemma incrementStillThereCount_missing:
  assumes "reports_get t k = None"
  shows "incrementStillThereCount t now k d = (\<lparr>success = False, alreadyConfirmed = False\<rparr>, t)"
  using assms by (simp add: incrementStillThereCount_def)

lemma incrementStillThereCount_open:
  assumes "reports_get t k = Some r" and "\<not> hasDeviceConfirmedStillThereRecently now r d"
  shows "fst (incrementStillThereCount t now k d) = \<lparr>success = True, alreadyConfirmed = False\<rparr>"
    and "reports_get (snd (incrementStillThereCount t now k d)) k =
           Some (r\<lparr>stillThereCount := Suc (length (stillThereConfirmations r)),
                   stillThereConfirmations :=
                     stillThereConfirmations r @ [\<lparr>deviceId = d, timestamp = now\<rparr>],
                   clearedCount := (if stillThereConfirmations r \<noteq> [] then 0 else clearedCount r),
                   clearedConfirmations :=
                     (if stillThereConfirmations r \<noteq> [] then [] else clearedConfirmations r),
                   resolved := False,
                   lastModified := now,
                   syncStatus := pending\<rparr>)"
proof -
  show "fst (incrementStillThereCount t now k d) = \<lparr>success = True, alreadyConfirmed = False\<rparr>"
    using assms by (simp add: incrementStillThereCount_def Let_def)
  have "2 \<le> Suc (length (stillThereConfirmations r)) \<longleftrightarrow> stillThereConfirmations r \<noteq> []"
    by (cases "stillThereConfirmations r") simp_all
  then show "reports_get (snd (incrementStillThereCount t now k d)) k =
           Some (r\<lparr>stillThereCount := Suc (length (stillThereConfirmations r)),
                   stillThereConfirmations :=
                     stillThereConfirmations r @ [\<lparr>deviceId = d, timestamp = now\<rparr>],
                   clearedCount := (if stillThereConfirmations r \<noteq> [] then 0 else clearedCount r),
                   clearedConfirmations :=
                     (if stillThereConfirmations r \<noteq> [] then [] else clearedConfirmations r),
                   resolved := False,
                   lastModified := now,
                   syncStatus := pending\<rparr>)"
    using assms
    by (simp add: incrementStillThereCount_def Let_def reports_get_update_same applyChanges_def)
qed

lemma incrementStillThereCount_success_iff:
  "success (fst (incrementStillThereCount t now k d)) \<longleftrightarrow>
     (\<exists>r. reports_get t k = Some r \<and> \<not> hasDeviceConfirmedStillThereRecently now r d)"
  by (cases "reports_get t k")
     (auto simp: incrementStillThereCount_def Let_def)

lemma reports_get_bulkMarkResolved:
  "reports_get (bulkMarkResolved t now ids) k =
     (if k \<in> set ids
      then map_option (\<lambda>r. r\<lparr>resolved := True, lastModified := now, syncStatus := pending\<rparr>)
             (reports_get t k)
      else reports_get t k)"
proof (induction ids arbitrary: t)
  case Nil
  then show ?case by (simp add: bulkMarkResolved_def reports_bulkUpdate_def)
next
  case (Cons i ids)
  have step: "bulkMarkResolved t now (i # ids) =
     bulkMarkResolved (reports_update t i [Resolved True, LastModified now, SyncStatusIs pending]) now ids"
    by (simp add: bulkMarkResolved_def reports_bulkUpdate_def)
  show ?case
    unfolding step Cons.IH
    by (cases "k = i"; cases "reports_get t k")
       (simp_all add: reports_get_update_same reports_get_update_other applyChanges_def)
qed

section \<open>Voting: duplicate cleared votes\<close>

lemma incrementClearedCount_duplicate:
  assumes "reports_get t k = Some r" and "d \<in> deviceId ` set (clearedConfirmations r)"
  shows "incrementClearedCount t now k d = (\<lparr>success = False, alreadyConfirmed = True\<rparr>, t)"
proof -
  from assms(2) have "hasDeviceConfirmedCleared r d"
    by (auto simp: hasDeviceConfirmedCleared_def list_ex_iff)
  with assms(1) show ?thesis
    by (simp add: incrementClearedCount_def)
qed

lemma repeatCleared_duplicate:
  assumes "reports_get t k = Some r" and "d \<in> deviceId ` set (clearedConfirmations r)"
  shows "repeatCleared t k d nows = t"
  unfolding repeatCleared_def
  by (induction nows) (simp_all add: incrementClearedCount_duplicate[OF assms])

text \<open>
  Claim C5. When the device id is already in the report's cleared ledger, \<open>castCleared\<close>
  (\<open>incrementClearedCount\<close>) returns \<open>{success: false, alreadyConfirmed: true}\<close> and the
  table, hence the report with its \<open>clearedCount\<close>, \<open>clearedConfirmations\<close> and
  \<open>resolved\<close>, is the same after the call as before; this stays so however often the call
  is repeated, at whatever times.
\<close>

theorem castCleared_duplicate_rejected:
  assumes "reports_get t k = Some r" and "d \<in> deviceId ` set (clearedConfirmations r)"
  shows "incrementClearedCount t now k d = (\<lparr>success = False, alreadyConfirmed = True\<rparr>, t)
       \<and> repeatCleared t k d nows = t
       \<and> incrementClearedCount (repeatCleared t k d nows) now k d
           = (\<lparr>success = False, alreadyConfirmed = True\<rparr>, repeatCleared t k d nows)
       \<and> reports_get (repeatCleared t k d nows) k = Some r"
  using assms
  by (simp add: incrementClearedCount_duplicate repeatCleared_duplicate)

theorem castCleared_duplicate_rejected_witness:
  "reports_get [votedReport] ''r1'' = Some votedReport
   \<and> ''a'' \<in> deviceId ` set (clearedConfirmations votedReport)
   \<and> incrementClearedCount [votedReport] 9 ''r1'' ''a''
       = (\<lparr>success = False, alreadyConfirmed = True\<rparr>, [votedReport])
   \<and> repeatCleared [votedReport] ''r1'' ''a'' [9, 10, 11] = [votedReport]"
proof -
  have g: "reports_get [votedReport] ''r1'' = Some votedReport"
    by (simp add: reports_get_def votedReport_def freshReport_def)
  have m: "''a'' \<in> deviceId ` set (clearedConfirmations votedReport)"
    by (simp add: votedReport_def)
  from castCleared_duplicate_rejected[OF g m, of 9 "[9, 10, 11]"] g m
  show ?thesis by simp
qed

section \<open>Voting: the cleared threshold\<close>

text \<open>
  Claim C1. Take a report whose cleared ledger is empty and which is not resolved, and any
  sequence of \<open>castCleared\<close> calls (at any clock readings) whose device ids are pairwise
  distinct. After the first \<open>n\<close> calls of the sequence the ledger holds exactly the devices
  that have voted, and \<open>resolved\<close> is true if and only if at least three calls have been
  made: false after the first and the second, true from the third on.
\<close>

theorem castCleared_threshold:
  assumes "reports_get t k = Some r"
    and "clearedConfirmations r = []"
    and "\<not> resolved r"
    and "distinct (map snd calls)"
  shows "\<exists>r'. reports_get (castClearedSeq t k (take n calls)) k = Some r'
            \<and> map deviceId (clearedConfirmations r') = map snd (take n calls)
            \<and> (resolved r' \<longleftrightarrow> 3 \<le> length (take n calls))"
proof -
  have d: "distinct (map snd (take n calls))"
    using assms(4) by (simp add: take_map[symmetric] distinct_take del: take_map)
  have i: "set (map snd (take n calls)) \<inter> deviceId ` set (clearedConfirmations r) = {}"
    using assms(2) by simp
  from castClearedSeq_ledger[OF assms(1) d i] obtain r' where
    r': "reports_get (castClearedSeq t k (take n calls)) k = Some r'"
        "map deviceId (clearedConfirmations r')
                = map deviceId (clearedConfirmations r) @ map snd (take n calls)"
        "resolved r' = (if take n calls = [] then resolved r
                              else 3 \<le> length (clearedConfirmations r'))"
    by blast
  have len: "length (clearedConfirmations r') = length (take n calls)"
    using arg_cong[OF r'(2), of length] assms(2) by simp
  show ?thesis using r' len assms(2,3) by (cases "take n calls = []") auto
qed

theorem castCleared_threshold_witness:
  "reports_get [freshReport] ''r1'' = Some freshReport
   \<and> clearedConfirmations freshReport = []
   \<and> \<not> resolved freshReport
   \<and> distinct (map snd [(1::int, ''a''), (2, ''b''), (3, ''c'')])
   \<and> (\<exists>r'. reports_get (castClearedSeq [freshReport] ''r1''
                  (take 2 [(1, ''a''), (2, ''b''), (3, ''c'')])) ''r1'' = Some r'
          \<and> \<not> resolved r')
   \<and> (\<exists>r'. reports_get (castClearedSeq [freshReport] ''r1''
                  (take 3 [(1, ''a''), (2, ''b''), (3, ''c'')])) ''r1'' = Some r'
          \<and> resolved r')"
proof -
  have g: "reports_get [freshReport] ''r1'' = Some freshReport"
    by (simp add: reports_get_def freshReport_def)
  have e: "clearedConfirmations freshReport = []" by (simp add: freshReport_def)
  have u: "\<not> resolved freshReport" by (simp add: freshReport_def)
  have d: "distinct (map snd [(1::int, ''a''), (2, ''b''), (3, ''c'')])" by simp
  from castCleared_threshold[OF g e u d, of 2] castCleared_threshold[OF g e u d, of 3] g e u d
  show ?thesis by auto
qed

section \<open>Voting: still-there votes\<close>

text \<open>
  Claim C10. Every successful \<open>castStillThere\<close> (\<open>incrementStillThereCount\<close>) leaves the
  report with \<open>resolved = false\<close>, whatever the resulting \<open>stillThereCount\<close>, also when
  it is 1; the cleared ledger and \<open>clearedCount\<close> are kept as they were while the
  resulting count is below 2, and are emptied and set to 0 once it is at least 2.
\<close>

theorem castStillThere_unresolves:
  assumes "reports_get t k = Some r"
    and "success (fst (incrementStillThereCount t now k d))"
  shows "\<exists>r'. reports_get (snd (incrementStillThereCount t now k d)) k = Some r'
           \<and> \<not> resolved r'
           \<and> stillThereCount r' = Suc (length (stillThereConfirmations r))
           \<and> (stillThereCount r' < 2 \<longrightarrow>
                clearedConfirmations r' = clearedConfirmations r \<and> clearedCount r' = clearedCount r)
           \<and> (stillThereCount r' \<ge> 2 \<longrightarrow> clearedConfirmations r' = [] \<and> clearedCount r' = 0)"
proof -
  from assms have n: "\<not> hasDeviceConfirmedStillThereRecently now r d"
    by (simp add: incrementStillThereCount_success_iff)
  show ?thesis
    unfolding incrementStillThereCount_open(2)[OF assms(1) n]
    by (cases "stillThereConfirmations r") simp_all
qed

theorem castStillThere_unresolves_witness:
  "reports_get [resolvedReport] ''r1'' = Some resolvedReport
   \<and> resolved resolvedReport
   \<and> success (fst (incrementStillThereCount [resolvedReport] 100 ''r1'' ''x''))
   \<and> (\<exists>r'. reports_get (snd (incrementStillThereCount [resolvedReport] 100 ''r1'' ''x'')) ''r1''
               = Some r'
          \<and> \<not> resolved r' \<and> stillThereCount r' = 1
          \<and> clearedConfirmations r' = clearedConfirmations resolvedReport)"
proof -
  have g: "reports_get [resolvedReport] ''r1'' = Some resolvedReport"
    by (simp add: reports_get_def resolvedReport_def freshReport_def)
  have n: "\<not> hasDeviceConfirmedStillThereRecently 100 resolvedReport ''x''"
    by (simp add: hasDeviceConfirmedStillThereRecently_def resolvedReport_def freshReport_def)
  have s: "success (fst (incrementStillThereCount [resolvedReport] 100 ''r1'' ''x''))"
    using g n by (simp add: incrementStillThereCount_def Let_def)
  have l: "stillThereConfirmations resolvedReport = []"
    by (simp add: resolvedReport_def freshReport_def)
  have r: "resolved resolvedReport" by (simp add: resolvedReport_def)
  from castStillThere_unresolves[OF g s] g s l r
  show ?thesis by auto
qed

text \<open>
  Claim C2. Two successful \<open>castStillThere\<close> calls in a row on one report leave it with
  \<open>clearedCount = 0\<close>, an empty cleared ledger and \<open>resolved = false\<close>. This holds for
  every report on which both calls succeed (neither is stopped by the 24-hour cooldown), so
  in particular for a resolved report with three or more cleared votes and two distinct
  devices, as the example after the theorem shows.
\<close>

theorem castStillThere_twice_resets:
  assumes "success (fst (incrementStillThereCount t now1 k d1))"
    and "t1 = snd (incrementStillThereCount t now1 k d1)"
    and "success (fst (incrementStillThereCount t1 now2 k d2))"
    and "t2 = snd (incrementStillThereCount t1 now2 k d2)"
  shows "\<exists>r2. reports_get t2 k = Some r2
           \<and> clearedCount r2 = 0 \<and> clearedConfirmations r2 = [] \<and> \<not> resolved r2"
proof -
  from assms(1) obtain r where r: "reports_get t k = Some r"
      "\<not> hasDeviceConfirmedStillThereRecently now1 r d1"
    by (auto simp: incrementStillThereCount_success_iff)
  from assms(3) obtain r1 where r1: "reports_get t1 k = Some r1"
      "\<not> hasDeviceConfirmedStillThereRecently now2 r1 d2"
    by (auto simp: incrementStillThereCount_success_iff)
  have "stillThereConfirmations r1 \<noteq> []"
    using r1(1) incrementStillThereCount_open(2)[OF r, of ] assms(2) by auto
  then show ?thesis
    unfolding assms(4) incrementStillThereCount_open(2)[OF r1]
    by simp
qed

theorem castStillThere_twice_resets_witness:
  "3 \<le> clearedCount resolvedReport \<and> resolved resolvedReport
   \<and> success (fst (incrementStillThereCount [resolvedReport] 100 ''r1'' ''x''))
   \<and> success (fst (incrementStillThereCount
                     (snd (incrementStillThereCount [resolvedReport] 100 ''r1'' ''x''))
                     200 ''r1'' ''y''))
   \<and> (\<exists>r2. reports_get
               (snd (incrementStillThereCount
                       (snd (incrementStillThereCount [resolvedReport] 100 ''r1'' ''x''))
                       200 ''r1'' ''y'')) ''r1'' = Some r2
          \<and> clearedCount r2 = 0 \<and> clearedConfirmations r2 = [] \<and> \<not> resolved r2)"
proof -
  have g: "reports_get [resolvedReport] ''r1'' = Some resolvedReport"
    by (simp add: reports_get_def resolvedReport_def freshReport_def)
  have n: "\<not> hasDeviceConfirmedStillThereRecently 100 resolvedReport ''x''"
    by (simp add: hasDeviceConfirmedStillThereRecently_def resolvedReport_def freshReport_def)
  have s1: "success (fst (incrementStillThereCount [resolvedReport] 100 ''r1'' ''x''))"
    using g n by (simp add: incrementStillThereCount_def Let_def)
  note g1 = incrementStillThereCount_open(2)[OF g n]
  have n1: "\<not> hasDeviceConfirmedStillThereRecently 200
              (resolvedReport\<lparr>stillThereCount := Suc (length (stillThereConfirmations resolvedReport)),
                   stillThereConfirmations :=
                     stillThereConfirmations resolvedReport @ [\<lparr>deviceId = ''x'', timestamp = 100\<rparr>],
                   clearedCount := (if stillThereConfirmations resolvedReport \<noteq> [] then 0
                                    else clearedCount resolvedReport),
                   clearedConfirmations :=
                     (if stillThereConfirmations resolvedReport \<noteq> [] then []
                      else clearedConfirmations resolvedReport),
                   resolved := False,
                   lastModified := 100,
                   syncStatus := pending\<rparr>) ''y''"
    by (simp add: hasDeviceConfirmedStillThereRecently_def resolvedReport_def freshReport_def)
  have s2: "success (fst (incrementStillThereCount
                     (snd (incrementStillThereCount [resolvedReport] 100 ''r1'' ''x''))
                     200 ''r1'' ''y''))"
    using incrementStillThereCount_open(1)[OF g1 n1] by simp
  have c: "3 \<le> clearedCount resolvedReport \<and> resolved resolvedReport"
    by (simp add: resolvedReport_def)
  from castStillThere_twice_resets[OF s1 refl s2 refl] s1 s2 c
  show ?thesis by simp
qed

text \<open>
  Claim C4. For a stored report and a device id: when the device has an entry in the
  still-there ledger less than 24 hours old (\<open>now - timestamp < 86400000\<close> ms),
  \<open>castStillThere\<close> returns \<open>{success: false, alreadyConfirmed: true}\<close> and the table is
  unchanged; otherwise, so whenever every entry of the device is more than 24 hours old,
  the call succeeds and appends the entry \<open>(deviceId, now)\<close> to the ledger. (An entry
  exactly 24 hours old does not block either.)
\<close>

theorem castStillThere_cooldown:
  assumes "reports_get t k = Some r"
  shows "(if \<exists>c\<in>set (stillThereConfirmations r).
               deviceId c = d \<and> now - timestamp c < 24 * 60 * 60 * 1000
          then incrementStillThereCount t now k d
                 = (\<lparr>success = False, alreadyConfirmed = True\<rparr>, t)
          else fst (incrementStillThereCount t now k d)
                 = \<lparr>success = True, alreadyConfirmed = False\<rparr>
             \<and> (\<exists>r'. reports_get (snd (incrementStillThereCount t now k d)) k = Some r'
                   \<and> stillThereConfirmations r'
                       = stillThereConfirmations r @ [\<lparr>deviceId = d, timestamp = now\<rparr>]
                   \<and> stillThereCount r' = Suc (length (stillThereConfirmations r))))"
proof -
  have eq: "(\<exists>c\<in>set (stillThereConfirmations r).
               deviceId c = d \<and> now - timestamp c < 24 * 60 * 60 * 1000)
            \<longleftrightarrow> hasDeviceConfirmedStillThereRecently now r d"
    by (simp only: recently_iff)
  show ?thesis
    unfolding eq
  proof (cases "hasDeviceConfirmedStillThereRecently now r d")
    case True
    then show "if hasDeviceConfirmedStillThereRecently now r d
          then incrementStillThereCount t now k d
                 = (\<lparr>success = False, alreadyConfirmed = True\<rparr>, t)
          else fst (incrementStillThereCount t now k d)
                 = \<lparr>success = True, alreadyConfirmed = False\<rparr>
             \<and> (\<exists>r'. reports_get (snd (incrementStillThereCount t now k d)) k = Some r'
                   \<and> stillThereConfirmations r'
                       = stillThereConfirmations r @ [\<lparr>deviceId = d, timestamp = now\<rparr>]
                   \<and> stillThereCount r' = Suc (length (stillThereConfirmations r)))"
      using incrementStillThereCount_blocked[OF assms True] by simp
  next
    case False
    then show "if hasDeviceConfirmedStillThereRecently now r d
          then incrementStillThereCount t now k d
                 = (\<lparr>success = False, alreadyConfirmed = True\<rparr>, t)
          else fst (incrementStillThereCount t now k d)
                 = \<lparr>success = True, alreadyConfirmed = False\<rparr>
             \<and> (\<exists>r'. reports_get (snd (incrementStillThereCount t now k d)) k = Some r'
                   \<and> stillThereConfirmations r'
                       = stillThereConfirmations r @ [\<lparr>deviceId = d, timestamp = now\<rparr>]
                   \<and> stillThereCount r' = Suc (length (stillThereConfirmations r)))"
      using incrementStillThereCount_open[OF assms False] by simp
  qed
qed

theorem castStillThere_cooldown_witness:
  "reports_get [stillThereReport] ''r1'' = Some stillThereReport
   \<and> incrementStillThereCount [stillThereReport] (1000 + 3600000) ''r1'' ''a''
       = (\<lparr>success = False, alreadyConfirmed = True\<rparr>, [stillThereReport])
   \<and> fst (incrementStillThereCount [stillThereReport] (1000 + 86400000 + 1) ''r1'' ''a'')
       = \<lparr>success = True, alreadyConfirmed = False\<rparr>
   \<and> (\<exists>r'. reports_get
               (snd (incrementStillThereCount [stillThereReport] (1000 + 86400000 + 1) ''r1'' ''a''))
               ''r1'' = Some r'
          \<and> stillThereConfirmations r'
              = [\<lparr>deviceId = ''a'', timestamp = 1000\<rparr>,
                 \<lparr>deviceId = ''a'', timestamp = 1000 + 86400000 + 1\<rparr>])"
proof -
  have g: "reports_get [stillThereReport] ''r1'' = Some stillThereReport"
    by (simp add: reports_get_def stillThereReport_def freshReport_def)
  have l: "stillThereConfirmations stillThereReport = [\<lparr>deviceId = ''a'', timestamp = 1000\<rparr>]"
    by (simp add: stillThereReport_def)
  from castStillThere_cooldown[OF g, of "''a''" "1000 + 3600000"]
       castStillThere_cooldown[OF g, of "''a''" "1000 + 86400000 + 1"] g
  show ?thesis by (auto simp: l)
qed

section \<open>Voting: a cleared vote after the administrative override\<close>

text \<open>
  Claim C9. Every successful \<open>castCleared\<close> stores the new ledger length as
  \<open>clearedCount\<close> and sets \<open>resolved\<close> to the truth value of \<open>clearedCount \<ge> 3\<close>.
  Consequently, when \<open>bulkMarkResolved\<close> has made a report resolved whose \<open>clearedCount\<close>
  (the size of its cleared ledger) is below 2, one successful \<open>castCleared\<close> from a device
  not yet in the ledger leaves the report with \<open>resolved = false\<close>.
\<close>

theorem castCleared_recomputes_resolved:
  assumes "reports_get t k = Some r"
  shows "(success (fst (incrementClearedCount t now k d)) \<longrightarrow>
           (\<exists>r'. reports_get (snd (incrementClearedCount t now k d)) k = Some r'
               \<and> clearedCount r' = Suc (length (clearedConfirmations r))
               \<and> (resolved r' \<longleftrightarrow> 3 \<le> clearedCount r')))
       \<and> (k \<in> set ids \<and> clearedCount r = length (clearedConfirmations r) \<and> clearedCount r < 2
            \<and> d \<notin> deviceId ` set (clearedConfirmations r) \<longrightarrow>
           (\<exists>r1. reports_get (bulkMarkResolved t now0 ids) k = Some r1 \<and> resolved r1)
           \<and> fst (incrementClearedCount (bulkMarkResolved t now0 ids) now k d)
               = \<lparr>success = True, alreadyConfirmed = False\<rparr>
           \<and> (\<exists>r2. reports_get (snd (incrementClearedCount (bulkMarkResolved t now0 ids) now k d)) k
                       = Some r2 \<and> \<not> resolved r2))"
proof (intro conjI impI)
  assume s: "success (fst (incrementClearedCount t now k d))"
  have fresh: "d \<notin> deviceId ` set (clearedConfirmations r)"
  proof
    assume "d \<in> deviceId ` set (clearedConfirmations r)"
    then have "hasDeviceConfirmedCleared r d"
      by (auto simp: hasDeviceConfirmedCleared_def list_ex_iff)
    with assms s show False by (simp add: incrementClearedCount_def)
  qed
  show "\<exists>r'. reports_get (snd (incrementClearedCount t now k d)) k = Some r'
               \<and> clearedCount r' = Suc (length (clearedConfirmations r))
               \<and> (resolved r' \<longleftrightarrow> 3 \<le> clearedCount r')"
    unfolding incrementClearedCount_fresh(2)[OF assms fresh] by auto
next
  assume a: "k \<in> set ids \<and> clearedCount r = length (clearedConfirmations r) \<and> clearedCount r < 2
            \<and> d \<notin> deviceId ` set (clearedConfirmations r)"
  let ?r1 = "r\<lparr>resolved := True, lastModified := now0, syncStatus := pending\<rparr>"
  have g1: "reports_get (bulkMarkResolved t now0 ids) k = Some ?r1"
    using a assms by (simp add: reports_get_bulkMarkResolved)
  have fresh: "d \<notin> deviceId ` set (clearedConfirmations ?r1)" using a by simp
  show "\<exists>r1. reports_get (bulkMarkResolved t now0 ids) k = Some r1 \<and> resolved r1"
    using g1 by simp
  show "fst (incrementClearedCount (bulkMarkResolved t now0 ids) now k d)
               = \<lparr>success = True, alreadyConfirmed = False\<rparr>"
    by (rule incrementClearedCount_fresh(1)[OF g1 fresh])
  show "\<exists>r2. reports_get (snd (incrementClearedCount (bulkMarkResolved t now0 ids) now k d)) k
                       = Some r2 \<and> \<not> resolved r2"
    unfolding incrementClearedCount_fresh(2)[OF g1 fresh] using a by simp
qed

theorem castCleared_recomputes_resolved_witness:
  "reports_get [votedReport] ''r1'' = Some votedReport
   \<and> clearedCount votedReport = 1
   \<and> (\<exists>r1. reports_get (bulkMarkResolved [votedReport] 50 [''r1'']) ''r1'' = Some r1
          \<and> resolved r1)
   \<and> success (fst (incrementClearedCount (bulkMarkResolved [votedReport] 50 [''r1''])
                     60 ''r1'' ''b''))
   \<and> (\<exists>r2. reports_get
               (snd (incrementClearedCount (bulkMarkResolved [votedReport] 50 [''r1''])
                       60 ''r1'' ''b'')) ''r1'' = Some r2
          \<and> \<not> resolved r2)"
proof -
  have g: "reports_get [votedReport] ''r1'' = Some votedReport"
    by (simp add: reports_get_def votedReport_def freshReport_def)
  have p: "''r1'' \<in> set [''r1''] \<and> clearedCount votedReport = length (clearedConfirmations votedReport)
           \<and> clearedCount votedReport < 2
           \<and> ''b'' \<notin> deviceId ` set (clearedConfirmations votedReport)"
    by (simp add: votedReport_def)
  have c: "clearedCount votedReport = 1" by (simp add: votedReport_def)
  from castCleared_recomputes_resolved[OF g, of 60 "''b''" "[''r1'']" 50] p g c
  show ?thesis by simp
qed

section \<open>Local mutations stamp the row\<close>







section \<open>Auto-archive sweep\<close>

lemma archive_fold:
  "fold (\<lambda>report t'. archiveReport t' now (reportId report)) xs t
     = map (\<lambda>r. if reportId r \<in> reportId ` set xs
                 then r\<lparr>archived := Some True, archivedAt := Some now,
                        lastModified := now, syncStatus := pending\<rparr>
                 else r) t"
proof (induction xs arbitrary: t)
  case Nil
  then show ?case by simp
next
  case (Cons x xs)
  have step: "fold (\<lambda>report t'. archiveReport t' now (reportId report)) (x # xs) t
     = fold (\<lambda>report t'. archiveReport t' now (reportId report)) xs
         (archiveReport t now (reportId x))"
    by simp
  show ?case
    unfolding step Cons.IH
    by (auto simp: archiveReport_def reports_update_def applyChanges_def)
qed

lemma distinct_reportId_eq:
  assumes "distinct (map reportId t)" and "r \<in> set t" and "r' \<in> set t"
    and "reportId r = reportId r'"
  shows "r = r'"
  using assms by (meson distinct_map inj_onD)

lemma reports_get_member:
  assumes "distinct (map reportId t)" and "r \<in> set t"
  shows "reports_get t (reportId r) = Some r"
  using assms unfolding reports_get_def
  by (induction t) (auto simp: rev_image_eqI)


lemma autoArchive_rows:
  assumes "distinct (map reportId t)"
  shows "snd (autoArchiveOldResolvedReports t now)
     = map (\<lambda>r. if resolved r \<and> archived r \<noteq> Some True
                    \<and> now - lastModified r > 7 * 24 * 60 * 60 * 1000
                 then r\<lparr>archived := Some True, archivedAt := Some now,
                        lastModified := now, syncStatus := pending\<rparr>
                 else r) t"
proof -
  let ?P = "\<lambda>r. resolved r \<and> archived r \<noteq> Some True \<and> lastModified r < now - 7 * 24 * 60 * 60 * 1000"
  have mem: "reportId r \<in> reportId ` set (filter ?P t) \<longleftrightarrow> ?P r" if "r \<in> set t" for r
  proof
    assume "reportId r \<in> reportId ` set (filter ?P t)"
    then obtain r' where r': "r' \<in> set t" "?P r'" "reportId r = reportId r'" by auto
    from distinct_reportId_eq[OF assms that r'(1) r'(3)] r'(2) show "?P r" by simp
  next
    assume "?P r"
    with that show "reportId r \<in> reportId ` set (filter ?P t)" by auto
  qed
  have "snd (autoArchiveOldResolvedReports t now)
      = map (\<lambda>r. if reportId r \<in> reportId ` set (filter ?P t)
                 then r\<lparr>archived := Some True, archivedAt := Some now,
                        lastModified := now, syncStatus := pending\<rparr>
                 else r) t"
    by (simp add: autoArchiveOldResolvedReports_def Let_def archive_fold)
  also have "\<dots> = map (\<lambda>r. if resolved r \<and> archived r \<noteq> Some True
                    \<and> now - lastModified r > 7 * 24 * 60 * 60 * 1000
                 then r\<lparr>archived := Some True, archivedAt := Some now,
                        lastModified := now, syncStatus := pending\<rparr>
                 else r) t"
  proof (rule map_cong[OF refl])
    fix r assume "r \<in> set t"
    from mem[OF this]
    have "reportId r \<in> reportId ` set (filter ?P t) \<longleftrightarrow>
            resolved r \<and> archived r \<noteq> Some True
              \<and> now - lastModified r > 7 * 24 * 60 * 60 * 1000"
      by auto
    then show "(if reportId r \<in> reportId ` set (filter ?P t)
                 then r\<lparr>archived := Some True, archivedAt := Some now,
                        lastModified := now, syncStatus := pending\<rparr>
                 else r)
             = (if resolved r \<and> archived r \<noteq> Some True
                    \<and> now - lastModified r > 7 * 24 * 60 * 60 * 1000
                 then r\<lparr>archived := Some True, archivedAt := Some now,
                        lastModified := now, syncStatus := pending\<rparr>
                 else r)"
      by (simp only:)
  qed
  finally show ?thesis .
qed

lemma autoArchive_count:
  "fst (autoArchiveOldResolvedReports t now)
     = length (filter (\<lambda>r. resolved r \<and> archived r \<noteq> Some True
                           \<and> now - lastModified r > 7 * 24 * 60 * 60 * 1000) t)"
proof -
  have "filter (\<lambda>r. resolved r \<and> archived r \<noteq> Some True
                     \<and> lastModified r < now - 7 * 24 * 60 * 60 * 1000) t
      = filter (\<lambda>r. resolved r \<and> archived r \<noteq> Some True
                     \<and> now - lastModified r > 7 * 24 * 60 * 60 * 1000) t"
    by (rule filter_cong) auto
  then show ?thesis
    by (simp add: autoArchiveOldResolvedReports_def Let_def)
qed

lemma autoArchive_second:
  assumes "distinct (map reportId t)"
  shows "autoArchiveOldResolvedReports (snd (autoArchiveOldResolvedReports t now)) now
           = (0, snd (autoArchiveOldResolvedReports t now))"
proof -
  have "filter (\<lambda>r. resolved r \<and> archived r \<noteq> Some True \<and> lastModified r < now - 7 * 24 * 60 * 60 * 1000)
          (snd (autoArchiveOldResolvedReports t now)) = []"
    unfolding autoArchive_rows[OF assms]
    by (auto simp: filter_empty_conv)
  then show ?thesis
    by (simp add: autoArchiveOldResolvedReports_def[of "snd (autoArchiveOldResolvedReports t now)"] Let_def)
qed

text \<open>
  Claim C6. On a table keyed by id, the sweep run at clock reading \<open>now\<close> changes exactly
  the rows with \<open>resolved\<close> true, \<open>archived\<close> not true and \<open>lastModified\<close> more than
  7 days (604800000 ms) before \<open>now\<close>: each gets \<open>archived = true\<close> and
  \<open>archivedAt = now\<close> (and the stamp of \<open>archiveReport\<close>), every other row is untouched,
  and the returned count is the number of those rows. Run again at once on the result, the
  sweep returns 0 and the table it was given. A resolved unarchived report last modified
  8 days ago is archived; a report last modified 6 days ago is left as it is.
\<close>

theorem autoArchive_exact_idempotent:
  assumes "distinct (map reportId t)"
  shows "snd (autoArchiveOldResolvedReports t now)
           = map (\<lambda>r. if resolved r \<and> archived r \<noteq> Some True
                          \<and> now - lastModified r > 7 * 24 * 60 * 60 * 1000
                       then r\<lparr>archived := Some True, archivedAt := Some now,
                              lastModified := now, syncStatus := pending\<rparr>
                       else r) t
       \<and> fst (autoArchiveOldResolvedReports t now)
           = length (filter (\<lambda>r. resolved r \<and> archived r \<noteq> Some True
                                 \<and> now - lastModified r > 7 * 24 * 60 * 60 * 1000) t)
       \<and> autoArchiveOldResolvedReports (snd (autoArchiveOldResolvedReports t now)) now
           = (0, snd (autoArchiveOldResolvedReports t now))
       \<and> (\<forall>r\<in>set t. resolved r \<and> archived r \<noteq> Some True
              \<and> now - lastModified r = 8 * 24 * 60 * 60 * 1000 \<longrightarrow>
            reports_get (snd (autoArchiveOldResolvedReports t now)) (reportId r)
              = Some (r\<lparr>archived := Some True, archivedAt := Some now,
                        lastModified := now, syncStatus := pending\<rparr>))
       \<and> (\<forall>r\<in>set t. now - lastModified r = 6 * 24 * 60 * 60 * 1000 \<longrightarrow>
            reports_get (snd (autoArchiveOldResolvedReports t now)) (reportId r) = Some r)"
proof -
  let ?E = "\<lambda>r. resolved r \<and> archived r \<noteq> Some True
                          \<and> now - lastModified r > 7 * 24 * 60 * 60 * 1000"
  let ?A = "\<lambda>r. r\<lparr>archived := Some True, archivedAt := Some now,
                              lastModified := now, syncStatus := pending\<rparr>"
  let ?t1 = "map (\<lambda>r. if ?E r then ?A r else r) t"
  have d1: "distinct (map reportId ?t1)"
  proof -
    have "map reportId ?t1 = map reportId t" by (induction t) simp_all
    then show ?thesis using assms by (simp only:)
  qed
  have get1: "reports_get ?t1 (reportId r) = Some (if ?E r then ?A r else r)" if "r \<in> set t" for r
  proof -
    have m: "(if ?E r then ?A r else r) \<in> set ?t1"
      unfolding set_map by (rule image_eqI[OF refl that])
    have "reportId (if ?E r then ?A r else r) = reportId r" by simp
    with reports_get_member[OF d1 m] show ?thesis by simp
  qed
  have 8: "\<forall>r\<in>set t. resolved r \<and> archived r \<noteq> Some True
              \<and> now - lastModified r = 8 * 24 * 60 * 60 * 1000 \<longrightarrow>
            reports_get ?t1 (reportId r) = Some (?A r)"
    using get1 by simp
  have 6: "\<forall>r\<in>set t. now - lastModified r = 6 * 24 * 60 * 60 * 1000 \<longrightarrow>
            reports_get ?t1 (reportId r) = Some r"
    using get1 by simp
  show ?thesis
    unfolding autoArchive_second[OF assms] autoArchive_count
    unfolding autoArchive_rows[OF assms]
    using 8 6 by simp
qed

theorem autoArchive_exact_idempotent_witness:
  "distinct (map reportId [eightDayOld, sixDayOld])
   \<and> autoArchiveOldResolvedReports [eightDayOld, sixDayOld] 691200000
       = (1, [eightDayOld\<lparr>archived := Some True, archivedAt := Some 691200000,
                          lastModified := 691200000, syncStatus := pending\<rparr>,
              sixDayOld])
   \<and> autoArchiveOldResolvedReports
         [eightDayOld\<lparr>archived := Some True, archivedAt := Some 691200000,
                      lastModified := 691200000, syncStatus := pending\<rparr>,
          sixDayOld] 691200000
       = (0, [eightDayOld\<lparr>archived := Some True, archivedAt := Some 691200000,
                          lastModified := 691200000, syncStatus := pending\<rparr>,
              sixDayOld])"
proof -
  have d: "distinct (map reportId [eightDayOld, sixDayOld])"
    by (simp add: eightDayOld_def sixDayOld_def)
  have e: "resolved eightDayOld \<and> archived eightDayOld \<noteq> Some True
           \<and> lastModified eightDayOld = 0"
    by (simp add: eightDayOld_def freshReport_def)
  have f: "resolved sixDayOld \<and> archived sixDayOld \<noteq> Some True
           \<and> lastModified sixDayOld = 172800000"
    by (simp add: sixDayOld_def freshReport_def)
  note sweep = autoArchive_exact_idempotent[OF d, of 691200000]
  have rows: "snd (autoArchiveOldResolvedReports [eightDayOld, sixDayOld] 691200000)
      = [eightDayOld\<lparr>archived := Some True, archivedAt := Some 691200000,
                          lastModified := 691200000, syncStatus := pending\<rparr>,
         sixDayOld]"
    using sweep by (simp add: e f)
  have count: "fst (autoArchiveOldResolvedReports [eightDayOld, sixDayOld] 691200000) = 1"
    using sweep by (simp add: e f)
  have again: "autoArchiveOldResolvedReports
         (snd (autoArchiveOldResolvedReports [eightDayOld, sixDayOld] 691200000)) 691200000
       = (0, snd (autoArchiveOldResolvedReports [eightDayOld, sixDayOld] 691200000))"
    using sweep by blast
  show ?thesis
    using d rows count again[unfolded rows] by (simp add: prod_eq_iff)
qed

section \<open>Merge: union by id, last write wins\<close>

lemma set_update_subset:
  "p \<in> set (AList.update k v al) \<Longrightarrow> p = (k, v) \<or> p \<in> set al"
  by (induction al) (auto split: if_splits)

lemma keyed_update:
  "keyed m \<Longrightarrow> reportId v = k \<Longrightarrow> keyed (AList.update k v m)"
  unfolding keyed_def by (auto dest: set_update_subset)

lemma keyed_map_of:
  "keyed m \<Longrightarrow> map_of m k = Some v \<Longrightarrow> reportId v = k"
  unfolding keyed_def by (auto dest: map_of_SomeD)

lemma findById_None_iff: "findById xs k = None \<longleftrightarrow> k \<notin> reportId ` set xs"
  unfolding findById_def by (auto simp: find_None_iff)

lemma local_fold_keyed:
  "keyed m \<Longrightarrow> keyed (fold (\<lambda>report merged. AList.update (reportId report) report merged) xs m)"
  by (induction xs arbitrary: m) (simp_all add: keyed_update)

lemma local_fold_distinct:
  "distinct (map fst m) \<Longrightarrow>
     distinct (map fst (fold (\<lambda>report merged. AList.update (reportId report) report merged) xs m))"
  by (induction xs arbitrary: m) (simp_all add: distinct_update)

lemma local_fold_map_of:
  "distinct (map reportId xs) \<Longrightarrow>
     map_of (fold (\<lambda>report merged. AList.update (reportId report) report merged) xs m) k
       = (case findById xs k of None \<Rightarrow> map_of m k | Some r \<Rightarrow> Some r)"
proof (induction xs arbitrary: m)
  case Nil
  then show ?case by (simp add: findById_def)
next
  case (Cons x xs)
  from Cons.prems have nx: "findById xs (reportId x) = None"
    by (simp add: findById_None_iff)
  from Cons.prems have "distinct (map reportId xs)" by simp
  note IH = Cons.IH[OF this, of "AList.update (reportId x) x m"]
  show ?case
  proof (cases "reportId x = k")
    case True
    with IH nx show ?thesis by (simp add: findById_def update_conv' split: option.splits)
  next
    case False
    with IH show ?thesis by (simp add: findById_def update_conv' split: option.splits)
  qed
qed

lemma mergeRemote_keyed: "keyed m \<Longrightarrow> keyed (mergeRemote b m)"
  unfolding mergeRemote_def
  by (auto simp: Let_def split: option.splits intro!: keyed_update dest: keyed_map_of)

lemma mergeRemote_distinct: "distinct (map fst m) \<Longrightarrow> distinct (map fst (mergeRemote b m))"
  unfolding mergeRemote_def
  by (auto simp: Let_def distinct_update split: option.splits)

lemma mergeRemote_map_of:
  "map_of (mergeRemote b m) =
     (map_of m)(reportId b \<mapsto>
        (case map_of m (reportId b) of
           None \<Rightarrow> b
         | Some a \<Rightarrow> if lastModified b > lastModified a then b\<lparr>syncStatus := synced\<rparr> else a))"
  unfolding mergeRemote_def
  by (auto simp: Let_def update_conv' fun_eq_iff split: option.splits)

lemma remote_fold_keyed: "keyed m \<Longrightarrow> keyed (fold mergeRemote bs m)"
  by (induction bs arbitrary: m) (simp_all add: mergeRemote_keyed)

lemma remote_fold_distinct:
  "distinct (map fst m) \<Longrightarrow> distinct (map fst (fold mergeRemote bs m))"
  by (induction bs arbitrary: m) (simp_all add: mergeRemote_distinct)

lemma remote_fold_map_of:
  "distinct (map reportId bs) \<Longrightarrow>
     map_of (fold mergeRemote bs m) k
       = (case findById bs k of
            None \<Rightarrow> map_of m k
          | Some b \<Rightarrow>
              Some (case map_of m k of
                      None \<Rightarrow> b
                    | Some a \<Rightarrow> if lastModified b > lastModified a
                                then b\<lparr>syncStatus := synced\<rparr> else a))"
proof (induction bs arbitrary: m)
  case Nil
  then show ?case by (simp add: findById_def)
next
  case (Cons b bs)
  from Cons.prems have nb: "findById bs (reportId b) = None"
    by (simp add: findById_None_iff)
  from Cons.prems have "distinct (map reportId bs)" by simp
  note IH = Cons.IH[OF this, of "mergeRemote b m"]
  show ?case
  proof (cases "reportId b = k")
    case True
    with IH nb show ?thesis
      by (simp add: findById_def mergeRemote_map_of split: option.splits)
  next
    case False
    with IH show ?thesis
      by (simp add: findById_def mergeRemote_map_of split: option.splits)
  qed
qed

lemma keyed_find_values: "keyed m \<Longrightarrow> findById (map snd m) k = map_of m k"
  unfolding keyed_def findById_def by (induction m) auto

lemma keyed_ids: "keyed m \<Longrightarrow> map reportId (map snd m) = map fst m"
  unfolding keyed_def by (induction m) auto

text \<open>
  Claim C3. For local and remote lists that are keyed by id (no id twice in a list), the
  merged list is keyed by id and its ids are the union of the two id sets. The record
  under an id present on both sides is the remote record with \<open>syncStatus = synced\<close> if
  \<open>remote.lastModified > local.lastModified\<close> and the local record, unchanged, otherwise
  (so a newer local record that is \<open>pending\<close> stays \<open>pending\<close>); a record present on one
  side only is kept as it is.
\<close>

theorem mergeReports_union_lww:
  assumes "distinct (map reportId localReports)" and "distinct (map reportId remoteReports)"
  shows "distinct (map reportId (mergeReports localReports remoteReports))
       \<and> reportId ` set (mergeReports localReports remoteReports)
           = reportId ` set localReports \<union> reportId ` set remoteReports
       \<and> findById (mergeReports localReports remoteReports) k
           = (case (findById localReports k, findById remoteReports k) of
                (None, None) \<Rightarrow> None
              | (Some l, None) \<Rightarrow> Some l
              | (None, Some r) \<Rightarrow> Some r
              | (Some l, Some r) \<Rightarrow>
                  Some (if lastModified r > lastModified l
                        then r\<lparr>syncStatus := synced\<rparr> else l))"
proof -
  let ?base = "fold (\<lambda>report merged. AList.update (reportId report) report merged) localReports []"
  let ?merged = "fold mergeRemote remoteReports ?base"
  have "keyed []" by (simp add: keyed_def)
  then have k0: "keyed ?base" by (rule local_fold_keyed)
  then have k: "keyed ?merged" by (rule remote_fold_keyed)
  have d: "distinct (map fst ?merged)"
    by (rule remote_fold_distinct, rule local_fold_distinct) simp
  have m0: "map_of ?base j = findById localReports j" for j
    using local_fold_map_of[OF assms(1), of "[]" j] by (simp split: option.splits)
  have look: "findById (mergeReports localReports remoteReports) j
           = (case (findById localReports j, findById remoteReports j) of
                (None, None) \<Rightarrow> None
              | (Some l, None) \<Rightarrow> Some l
              | (None, Some r) \<Rightarrow> Some r
              | (Some l, Some r) \<Rightarrow>
                  Some (if lastModified r > lastModified l
                        then r\<lparr>syncStatus := synced\<rparr> else l))" for j
    unfolding mergeReports_def keyed_find_values[OF k] remote_fold_map_of[OF assms(2)] m0
    by (simp split: option.splits)
  have 1: "distinct (map reportId (mergeReports localReports remoteReports))"
    unfolding mergeReports_def keyed_ids[OF k] by (rule d)
  have 2: "reportId ` set (mergeReports localReports remoteReports)
           = reportId ` set localReports \<union> reportId ` set remoteReports"
  proof (rule set_eqI)
    fix j
    have "j \<in> reportId ` set (mergeReports localReports remoteReports)
            \<longleftrightarrow> findById (mergeReports localReports remoteReports) j \<noteq> None"
      by (simp add: findById_None_iff)
    also have "\<dots> \<longleftrightarrow> findById localReports j \<noteq> None \<or> findById remoteReports j \<noteq> None"
      unfolding look by (simp split: option.splits)
    also have "\<dots> \<longleftrightarrow> j \<in> reportId ` set localReports \<union> reportId ` set remoteReports"
      by (simp add: findById_None_iff)
    finally show "j \<in> reportId ` set (mergeReports localReports remoteReports)
            \<longleftrightarrow> j \<in> reportId ` set localReports \<union> reportId ` set remoteReports" .
  qed
  from 1 2 look[of k] show ?thesis by blast
qed

theorem mergeReports_union_lww_witness:
  "distinct (map reportId [localOlder, localNewer])
   \<and> distinct (map reportId [remoteNewer, remoteOlder, remoteOnly])
   \<and> findById (mergeReports [localOlder, localNewer] [remoteNewer, remoteOlder, remoteOnly]) ''r1''
       = Some (remoteNewer\<lparr>syncStatus := synced\<rparr>)
   \<and> findById (mergeReports [localOlder, localNewer] [remoteNewer, remoteOlder, remoteOnly]) ''r2''
       = Some localNewer
   \<and> syncStatus localNewer = pending
   \<and> findById (mergeReports [localOlder, localNewer] [remoteNewer, remoteOlder, remoteOnly]) ''r3''
       = Some remoteOnly"
proof -
  have i: "reportId localOlder = ''r1''" "reportId localNewer = ''r2''"
      "reportId remoteNewer = ''r1''" "reportId remoteOlder = ''r2''"
      "reportId remoteOnly = ''r3''"
    by (simp_all add: localOlder_def localNewer_def remoteNewer_def remoteOlder_def
          remoteOnly_def freshReport_def)
  have m: "lastModified localOlder = 100" "lastModified localNewer = 300"
      "lastModified remoteNewer = 200" "lastModified remoteOlder = 200"
      "syncStatus localNewer = pending"
    by (simp_all add: localOlder_def localNewer_def remoteNewer_def remoteOlder_def
          freshReport_def)
  have dl: "distinct (map reportId [localOlder, localNewer])" by (simp add: i)
  have dr: "distinct (map reportId [remoteNewer, remoteOlder, remoteOnly])" by (simp add: i)
  from mergeReports_union_lww[OF dl dr, of "''r1''"]
       mergeReports_union_lww[OF dl dr, of "''r2''"]
       mergeReports_union_lww[OF dl dr, of "''r3''"] dl dr
  show ?thesis by (simp add: findById_def i m)
qed

section \<open>Proximity detector: hysteresis and the alert latch\<close>

lemma scanReports_filter:
  "scanReports cd suppressed prev la lo rs (ids, cur)
     = (ids @ map reportId (filter (\<lambda>r. reportId r \<notin> set suppressed \<and> inRange cd prev (la, lo) r) rs),
        cur \<union> reportId ` set (filter (\<lambda>r. reportId r \<notin> set suppressed \<and> inRange cd prev (la, lo) r) rs))"
  by (induction rs arbitrary: ids cur)
     (auto simp: inRange_def Let_def ENTRY_RADIUS_METERS_def EXIT_RADIUS_METERS_def)

lemma checkProximity_debounced:
  "now - lastCheck h < 1000 \<Longrightarrow> checkProximity cd reports suppressed h now pos = (h, [])"
  by (simp add: checkProximity_def DEBOUNCE_MS_def)

lemma checkProximity_prev:
  assumes "now - lastCheck h \<ge> 1000"
  shows "previouslyInProximity (fst (checkProximity cd reports suppressed h now pos))
       = reportId ` {r \<in> set reports. \<not> resolved r \<and> archived r \<noteq> Some True
                        \<and> reportId r \<notin> set suppressed \<and> inRange cd (previouslyInProximity h) pos r}"
  using assms
  by (auto simp: checkProximity_def DEBOUNCE_MS_def Let_def scanReports_filter)

lemma checkProximity_nearby:
  assumes "now - lastCheck h \<ge> 1000"
  shows "set (nearbyReportIds (alertState (fst (checkProximity cd reports suppressed h now pos))))
       = previouslyInProximity (fst (checkProximity cd reports suppressed h now pos))"
  using assms
  by (auto simp: checkProximity_def DEBOUNCE_MS_def Let_def scanReports_filter)

lemma checkProximity_inRange_iff:
  assumes "now - lastCheck h \<ge> 1000" and "distinct (map reportId reports)"
    and "r \<in> set reports" and "\<not> resolved r" and "archived r \<noteq> Some True"
    and "reportId r \<notin> set suppressed"
  shows "reportId r \<in> previouslyInProximity (fst (checkProximity cd reports suppressed h now pos))
       \<longleftrightarrow> inRange cd (previouslyInProximity h) pos r"
proof
  assume "reportId r \<in> previouslyInProximity (fst (checkProximity cd reports suppressed h now pos))"
  then obtain r' where r': "r' \<in> set reports" "reportId r' = reportId r"
      "inRange cd (previouslyInProximity h) pos r'"
    unfolding checkProximity_prev[OF assms(1)] by auto
  from assms(2) r'(1) assms(3) r'(2) have "r' = r"
    by (meson distinct_map inj_onD)
  with r'(3) show "inRange cd (previouslyInProximity h) pos r" by simp
next
  assume "inRange cd (previouslyInProximity h) pos r"
  with assms(3-6) show "reportId r \<in> previouslyInProximity (fst (checkProximity cd reports suppressed h now pos))"
    unfolding checkProximity_prev[OF assms(1)] by auto
qed

lemma checkProximity_latch:
  assumes "hasTriggeredAlert h"
  shows "AlertTriggered ids \<notin> set (snd (checkProximity cd reports suppressed h now pos))"
  using assms by (simp add: checkProximity_def Let_def)

lemma checkProximity_single:
  assumes "now - lastCheck h \<ge> 1000" and "\<not> resolved r" and "archived r \<noteq> Some True"
    and "reportId r \<notin> set suppressed"
  shows "checkProximity cd [r] suppressed h now pos =
     (let near = inRange cd (previouslyInProximity h) pos r;
          nearbyIds = (if near then [reportId r] else []);
          trigger = (near \<and> reportId r \<notin> previouslyInProximity h \<and> \<not> hasTriggeredAlert h);
          justExited = (\<not> near \<and> previouslyInProximity h \<noteq> {})
      in (\<lparr>lastCheck = now,
           previouslyInProximity = (if near then {reportId r} else {}),
           hasTriggeredAlert = (if justExited then False
                                else if trigger then True else hasTriggeredAlert h),
           alertState = \<lparr>isInProximity = near, nearbyReportIds = nearbyIds,
                          userLocation = Some (fst pos, snd pos)\<rparr>\<rparr>,
          (if trigger then [AlertTriggered nearbyIds] else [])
            @ (if justExited then [AlertCleared] else [])))"
  using assms
  by (auto simp: checkProximity_def DEBOUNCE_MS_def Let_def scanReports_filter)
lemma proximity_scenario:
  assumes "\<not> resolved r" and "archived r \<noteq> Some True" and "reportId r \<notin> set suppressed"
    and "now1 - lastCheck initialProximity \<ge> DEBOUNCE_MS"
    and "now2 - now1 \<ge> DEBOUNCE_MS" and "now3 - now2 \<ge> DEBOUNCE_MS"
    and "cd (fst p1) (snd p1) (lat r) (lng r) = 2"
    and "cd (fst p2) (snd p2) (lat r) (lng r) = 5"
    and "cd (fst p3) (snd p3) (lat r) (lng r) = 7"
    and "cd (fst p4) (snd p4) (lat r) (lng r) = 2"
  shows "(let s1 = checkProximity cd [r] suppressed initialProximity now1 p1;
              s2 = checkProximity cd [r] suppressed (fst s1) now2 p2;
              s3 = checkProximity cd [r] suppressed (fst s2) now3 p3;
              s4 = checkProximity cd [r] suppressed (fst s2) now3 p4
          in snd s1 = [AlertTriggered [reportId r]] \<and> hasTriggeredAlert (fst s1)
           \<and> snd s2 = [] \<and> hasTriggeredAlert (fst s2)
           \<and> previouslyInProximity (fst s2) = {reportId r}
           \<and> snd s3 = [AlertCleared] \<and> \<not> hasTriggeredAlert (fst s3)
           \<and> previouslyInProximity (fst s3) = {}
           \<and> snd s4 = [] \<and> hasTriggeredAlert (fst s4))"
proof -
  note a = assms(1-3)
  have t1: "now1 - lastCheck initialProximity \<ge> 1000"
    using assms(4) by (simp add: DEBOUNCE_MS_def)
  let ?s1 = "checkProximity cd [r] suppressed initialProximity now1 p1"
  have s1: "snd ?s1 = [AlertTriggered [reportId r]]" "hasTriggeredAlert (fst ?s1)"
      "previouslyInProximity (fst ?s1) = {reportId r}" "lastCheck (fst ?s1) = now1"
    unfolding checkProximity_single[OF t1 a]
    by (simp_all add: Let_def inRange_def assms(7) initialProximity_def)
  have t2: "now2 - lastCheck (fst ?s1) \<ge> 1000"
    using assms(5) s1(4) by (simp add: DEBOUNCE_MS_def)
  let ?s2 = "checkProximity cd [r] suppressed (fst ?s1) now2 p2"
  have s2: "snd ?s2 = []" "hasTriggeredAlert (fst ?s2)"
      "previouslyInProximity (fst ?s2) = {reportId r}" "lastCheck (fst ?s2) = now2"
    unfolding checkProximity_single[OF t2 a]
    by (simp_all add: Let_def inRange_def assms(8) s1)
  have t3: "now3 - lastCheck (fst ?s2) \<ge> 1000"
    using assms(6) s2(4) by (simp add: DEBOUNCE_MS_def)
  let ?s3 = "checkProximity cd [r] suppressed (fst ?s2) now3 p3"
  have s3: "snd ?s3 = [AlertCleared]" "\<not> hasTriggeredAlert (fst ?s3)"
      "previouslyInProximity (fst ?s3) = {}"
    unfolding checkProximity_single[OF t3 a]
    by (simp_all add: Let_def inRange_def assms(9) s2)
  let ?s4 = "checkProximity cd [r] suppressed (fst ?s2) now3 p4"
  have s4: "snd ?s4 = []" "hasTriggeredAlert (fst ?s4)"
    unfolding checkProximity_single[OF t3 a]
    by (simp_all add: Let_def inRange_def assms(10) s2)
  show ?thesis
    unfolding Let_def using s1 s2 s3 s4 by simp
qed

text \<open>
  Claim C7. At a fix that is not dropped by the debounce, an active report that is not
  suppressed is in range afterwards if and only if its distance is at most 3 m, or it was
  in range at the previous fix and its distance is at most 6 m. While the latch is set
  (Alerting) a fix never invokes the alert callback. And for a single such report, from
  the initial (Idle) state with fixes at least one second apart: a fix at 2 m invokes the
  alert and sets the latch; a following fix at 5 m invokes nothing and keeps the latch and
  the report in range; after that, a fix at 7 m empties the in-range set, invokes the
  cleared callback and releases the latch, whereas a fix at 2 m instead invokes nothing
  and keeps the latch.
\<close>

theorem proximity_hysteresis:
  assumes "distinct (map reportId reports)" and "r \<in> set reports"
    and "\<not> resolved r" and "archived r \<noteq> Some True" and "reportId r \<notin> set suppressed"
    and "now - lastCheck h \<ge> DEBOUNCE_MS"
  shows "(reportId r \<in> previouslyInProximity (fst (checkProximity cd reports suppressed h now pos))
           \<longleftrightarrow> cd (fst pos) (snd pos) (lat r) (lng r) \<le> 3
               \<or> (reportId r \<in> previouslyInProximity h
                   \<and> cd (fst pos) (snd pos) (lat r) (lng r) \<le> 6))
       \<and> (hasTriggeredAlert h \<longrightarrow>
            (\<forall>ids. AlertTriggered ids \<notin> set (snd (checkProximity cd reports suppressed h now pos))))
       \<and> (reports = [r] \<and> h = initialProximity
            \<and> now2 - now \<ge> DEBOUNCE_MS \<and> now3 - now2 \<ge> DEBOUNCE_MS
            \<and> cd (fst pos) (snd pos) (lat r) (lng r) = 2
            \<and> cd (fst p2) (snd p2) (lat r) (lng r) = 5
            \<and> cd (fst p3) (snd p3) (lat r) (lng r) = 7
            \<and> cd (fst p4) (snd p4) (lat r) (lng r) = 2 \<longrightarrow>
            (let s1 = checkProximity cd [r] suppressed initialProximity now pos;
                 s2 = checkProximity cd [r] suppressed (fst s1) now2 p2;
                 s3 = checkProximity cd [r] suppressed (fst s2) now3 p3;
                 s4 = checkProximity cd [r] suppressed (fst s2) now3 p4
             in snd s1 = [AlertTriggered [reportId r]] \<and> hasTriggeredAlert (fst s1)
              \<and> snd s2 = [] \<and> hasTriggeredAlert (fst s2)
              \<and> previouslyInProximity (fst s2) = {reportId r}
              \<and> snd s3 = [AlertCleared] \<and> \<not> hasTriggeredAlert (fst s3)
              \<and> previouslyInProximity (fst s3) = {}
              \<and> snd s4 = [] \<and> hasTriggeredAlert (fst s4)))"
proof (intro conjI impI)
  have t: "now - lastCheck h \<ge> 1000" using assms(6) by (simp add: DEBOUNCE_MS_def)
  show "reportId r \<in> previouslyInProximity (fst (checkProximity cd reports suppressed h now pos))
           \<longleftrightarrow> cd (fst pos) (snd pos) (lat r) (lng r) \<le> 3
               \<or> (reportId r \<in> previouslyInProximity h
                   \<and> cd (fst pos) (snd pos) (lat r) (lng r) \<le> 6)"
    unfolding checkProximity_inRange_iff[OF t assms(1-5)] inRange_def ..
next
  assume "hasTriggeredAlert h"
  then show "\<forall>ids. AlertTriggered ids \<notin> set (snd (checkProximity cd reports suppressed h now pos))"
    by (simp add: checkProximity_latch)
next
  assume s: "reports = [r] \<and> h = initialProximity
            \<and> now2 - now \<ge> DEBOUNCE_MS \<and> now3 - now2 \<ge> DEBOUNCE_MS
            \<and> cd (fst pos) (snd pos) (lat r) (lng r) = 2
            \<and> cd (fst p2) (snd p2) (lat r) (lng r) = 5
            \<and> cd (fst p3) (snd p3) (lat r) (lng r) = 7
            \<and> cd (fst p4) (snd p4) (lat r) (lng r) = 2"
  from s assms(6) have t1: "now - lastCheck initialProximity \<ge> DEBOUNCE_MS" by simp
  show "(let s1 = checkProximity cd [r] suppressed initialProximity now pos;
                 s2 = checkProximity cd [r] suppressed (fst s1) now2 p2;
                 s3 = checkProximity cd [r] suppressed (fst s2) now3 p3;
                 s4 = checkProximity cd [r] suppressed (fst s2) now3 p4
             in snd s1 = [AlertTriggered [reportId r]] \<and> hasTriggeredAlert (fst s1)
              \<and> snd s2 = [] \<and> hasTriggeredAlert (fst s2)
              \<and> previouslyInProximity (fst s2) = {reportId r}
              \<and> snd s3 = [AlertCleared] \<and> \<not> hasTriggeredAlert (fst s3)
              \<and> previouslyInProximity (fst s3) = {}
              \<and> snd s4 = [] \<and> hasTriggeredAlert (fst s4))"
    using s by (intro proximity_scenario[OF assms(3-5) t1]) simp_all
qed

theorem proximity_hysteresis_witness:
  "distinct (map reportId [freshReport]) \<and> freshReport \<in> set [freshReport]
   \<and> \<not> resolved freshReport \<and> archived freshReport \<noteq> Some True
   \<and> reportId freshReport \<notin> set []
   \<and> 5000 - lastCheck initialProximity \<ge> DEBOUNCE_MS
   \<and> (let s1 = checkProximity stubDistance [freshReport] [] initialProximity 5000 (2, 0);
          s2 = checkProximity stubDistance [freshReport] [] (fst s1) 6000 (5, 0);
          s3 = checkProximity stubDistance [freshReport] [] (fst s2) 7000 (7, 0);
          s4 = checkProximity stubDistance [freshReport] [] (fst s2) 7000 (0, 2)
      in snd s1 = [AlertTriggered [''r1'']] \<and> hasTriggeredAlert (fst s1)
       \<and> ''r1'' \<in> previouslyInProximity (fst s1)
       \<and> snd s2 = [] \<and> hasTriggeredAlert (fst s2)
       \<and> snd s3 = [AlertCleared] \<and> \<not> hasTriggeredAlert (fst s3)
       \<and> previouslyInProximity (fst s3) = {}
       \<and> snd s4 = [] \<and> hasTriggeredAlert (fst s4))"
proof -
  have d: "distinct (map reportId [freshReport])" by simp
  have m: "freshReport \<in> set [freshReport]" by simp
  have u: "\<not> resolved freshReport" by (simp add: freshReport_def)
  have a: "archived freshReport \<noteq> Some True" by (simp add: freshReport_def)
  have s: "reportId freshReport \<notin> set []" by simp
  have t: "5000 - lastCheck initialProximity \<ge> DEBOUNCE_MS"
    by (simp add: initialProximity_def DEBOUNCE_MS_def)
  have i: "reportId freshReport = ''r1''" "lat freshReport = 0" "lng freshReport = 0"
    by (simp_all add: freshReport_def)
  from proximity_hysteresis[OF d m u a s t,
         of stubDistance "(2, 0)" 6000 7000 "(5, 0)" "(7, 0)" "(0, 2)"]
       d m u a s t
  show ?thesis
    by (simp add: i stubDistance_def DEBOUNCE_MS_def Let_def)
qed

end
